theory Spec2Isabelle
  imports Complex_Main "HOL-Library.AList"
begin

section \<open>Errors\<close>

text \<open>
  The exceptions of the Python source that the model keeps apart. An
  \<open>AssertionError\<close> carries its message.
\<close>

datatype error =
    ZeroDivisionError
  | AssertionError string
  | IndexError
  | ValueError

section \<open>The weighting function\<close>

text \<open>
  \<^verbatim>\<open>MAX_DEGREE = 10\<close>
\<close>

definition MAX_DEGREE :: int where
  "MAX_DEGREE = 10"

text \<open>
  Python's \<^verbatim>\<open>int(x)\<close> on a number truncates towards zero.
\<close>

definition py_int :: "rat \<Rightarrow> int" where
  "py_int q = (if 0 \<le> q then \<lfloor>q\<rfloor> else \<lceil>q\<rceil>)"

text \<open>
  \<^verbatim>\<open>
  def apply_weighting(deg_sep, fn=models.power_law):
      return int(fn(deg_sep) / fn(MAX_DEGREE))
  \<close>
  The weighting function is an argument; it may raise, so it returns a sum. Its
  values are exact rationals here, where Python computes with floating-point
  numbers. The operands are evaluated left to right, and a zero divisor raises
  \<open>ZeroDivisionError\<close>.
\<close>

definition apply_weighting :: "int \<Rightarrow> (int \<Rightarrow> error + rat) \<Rightarrow> error + int" where
  "apply_weighting deg_sep fn =
     (case fn deg_sep of
        Inl e \<Rightarrow> Inl e
      | Inr a \<Rightarrow>
          (case fn MAX_DEGREE of
             Inl e \<Rightarrow> Inl e
           | Inr b \<Rightarrow> if b = 0 then Inl ZeroDivisionError else Inr (py_int (a / b))))"

text \<open>
  Modelled from the spec: \<^verbatim>\<open>models.power_law\<close>, the default weighting function, is
  not among the sources. The spec calls it an inverse power law, a monotonically
  decreasing function of the degree of separation. It is taken as
  \<open>x \<mapsto> x ** -k\<close>; the exponent \<open>k\<close>, which the spec does not give, is a
  parameter. Python raises \<open>ZeroDivisionError\<close> for \<open>0 ** -k\<close> when \<open>k > 0\<close>.
\<close>

definition power_law :: "nat \<Rightarrow> int \<Rightarrow> error + rat" where
  "power_law k x =
     (if x = 0 \<and> 0 < k then Inl ZeroDivisionError else Inr (1 / (of_int x) ^ k))"

section \<open>Strings\<close>

text \<open>
  A Python \<open>str\<close> is a \<open>string\<close>, one \<open>char\<close> for each character; the model
  covers the characters below 256, a \<open>char\<close> being the code point.
  \<open>isspace\<close> is Python's \<^verbatim>\<open>str.isspace\<close> on them, the characters that
  \<^verbatim>\<open>str.split()\<close> separates at: tab, line feed, vertical tab, form feed,
  carriage return, the four separators \<open>0x1c\<close> to \<open>0x1f\<close>, the space, the next
  line control \<open>0x85\<close> and the no-break space \<open>0xa0\<close>.
\<close>

definition isspace :: "char \<Rightarrow> bool" where
  "isspace c =
     (let n = (of_char c :: nat)
      in (9 \<le> n \<and> n \<le> 13) \<or> (28 \<le> n \<and> n \<le> 32) \<or> n = 133 \<or> n = 160)"

text \<open>
  \<^verbatim>\<open>s.split()\<close> with no argument: the maximal runs of characters that are not
  separators, in order; no empty strings. \<open>split_run\<close> scans the string, \<open>cur\<close>
  holding the run read so far; the separator test is an argument because the
  tokenizer of the matrix builder splits a string it has already cleaned.
\<close>

fun split_run :: "(char \<Rightarrow> bool) \<Rightarrow> string \<Rightarrow> string \<Rightarrow> string list" where
  "split_run sep cur [] = (if cur = [] then [] else [cur])"
| "split_run sep cur (c # cs) =
     (if sep c then (if cur = [] then split_run sep [] cs else cur # split_run sep [] cs)
      else split_run sep (cur @ [c]) cs)"

definition split :: "string \<Rightarrow> string list" where
  "split s = split_run isspace [] s"

text \<open>
  \<^verbatim>\<open>sep.join(words)\<close>
\<close>

fun join :: "string \<Rightarrow> string list \<Rightarrow> string" where
  "join sep [] = []"
| "join sep [w] = w"
| "join sep (w # v # ws) = w @ sep @ join sep (v # ws)"

text \<open>
  \<^verbatim>\<open>str(n)\<close> for a natural number, as \<^verbatim>\<open>'{}'.format(n)\<close> prints it.
\<close>

definition digit :: "nat \<Rightarrow> char" where
  "digit d = ''0123456789'' ! d"

fun str_nat :: "nat \<Rightarrow> string" where
  "str_nat n = (if n < 10 then [digit n] else str_nat (n div 10) @ [digit (n mod 10)])"

declare str_nat.simps [simp del]

section \<open>The term-document matrix of the textmining package\<close>

text \<open>
  \<^verbatim>\<open>textmining.TermDocumentMatrix\<close> is a class of the third-party package
  textmining (version 1.0), which the script imports. Its three methods that
  \<open>createDocTermMat\<close> calls are embedded from the package:
  \<^verbatim>\<open>
  def simple_tokenize(document):
      document = document.lower()
      document = re.sub('[^a-z]', ' ', document)
      return document.strip().split()

  class TermDocumentMatrix(object):
      def __init__(self, tokenizer=simple_tokenize):
          self.tokenize = tokenizer
          self.sparse = []
          self.doc_count = {}
      def add_doc(self, document):
          words = self.tokenize(document)
          word_counts = {}
          for word in words:
              word_counts[word] = word_counts.get(word, 0) + 1
          self.sparse.append(word_counts)
          for word in word_counts:
              self.doc_count[word] = self.doc_count.get(word, 0) + 1
      def rows(self, cutoff=2):
          words = [word for word in self.doc_count \
            if self.doc_count[word] >= cutoff]
          yield words
          for row in self.sparse:
              data = [row.get(word, 0) for word in words]
              yield data
  \<close>
  A dictionary is an association list in insertion order, which is the order a
  Python dictionary iterates in; \<open>AList.update\<close> overwrites the value of a key in
  place and appends a new key, as the assignment \<^verbatim>\<open>d[k] = v\<close> does.
\<close>

definition lower :: "char \<Rightarrow> char" where
  "lower c =
     (case map_of (zip ''ABCDEFGHIJKLMNOPQRSTUVWXYZ'' ''abcdefghijklmnopqrstuvwxyz'') c of
        None \<Rightarrow> c
      | Some l \<Rightarrow> l)"

definition simple_tokenize :: "string \<Rightarrow> string list" where
  "simple_tokenize document =
     split (map (\<lambda>c. if lower c \<in> set ''abcdefghijklmnopqrstuvwxyz'' then lower c else CHR '' '')
              document)"

type_synonym counts = "(string \<times> nat) list"

definition dict_get :: "counts \<Rightarrow> string \<Rightarrow> nat" where
  "dict_get d w = (case map_of d w of None \<Rightarrow> 0 | Some c \<Rightarrow> c)"

definition dict_incr :: "string \<Rightarrow> counts \<Rightarrow> counts" where
  "dict_incr w d = AList.update w (dict_get d w + 1) d"

record TermDocumentMatrix =
  sparse :: "counts list"
  doc_count :: counts

definition new_TermDocumentMatrix :: TermDocumentMatrix where
  "new_TermDocumentMatrix = \<lparr>sparse = [], doc_count = []\<rparr>"

definition word_counts :: "string \<Rightarrow> counts" where
  "word_counts document = fold dict_incr (simple_tokenize document) []"

definition add_doc :: "string \<Rightarrow> TermDocumentMatrix \<Rightarrow> TermDocumentMatrix" where
  "add_doc document tdm =
     \<lparr>sparse = sparse tdm @ [word_counts document],
      doc_count = fold dict_incr (map fst (word_counts document)) (doc_count tdm)\<rparr>"

definition rows :: "nat \<Rightarrow> TermDocumentMatrix \<Rightarrow> string list \<times> nat list list" where
  "rows cutoff tdm =
     (let words = map fst (filter (\<lambda>(word, n). cutoff \<le> n) (doc_count tdm))
      in (words, map (\<lambda>row. map (dict_get row) words) (sparse tdm)))"

section \<open>Building the weighted matrix\<close>

text \<open>
  A document of the dataset, as \<open>createDocTermMat\<close> reads it through the getters
  \<^verbatim>\<open>get_base_url()\<close>, \<^verbatim>\<open>get_document()\<close> and \<^verbatim>\<open>get_deg_sep()\<close> of
  \<^verbatim>\<open>items.DocumentItem\<close>.
\<close>

record Document =
  get_base_url :: string
  get_document :: "string list"
  get_deg_sep :: int

text \<open>
  \<^verbatim>\<open>
  def createDocTermMat(dataset):
      docTermMatrix = textmining.TermDocumentMatrix()
      titles = []
      for document in dataset:
          titles.append(document.get_base_url())
          weight = apply_weighting(document.get_deg_sep())
          for _ in range(weight):
              docTermMatrix.add_doc(' '.join(document.get_document()))
      temp = list(docTermMatrix.rows(cutoff=1))
      terms = tuple(temp[0])
      matrix = np.array(temp[1:])
      return [matrix, terms, titles]
  \<close>
  The default argument \<open>fn\<close> of \<open>apply_weighting\<close>, which the call leaves out, is
  the first argument of the model. \<open>range(weight)\<close> is empty for a weight that
  is zero or negative, so the inner loop \<open>add_doc_times\<close> runs \<open>nat weight\<close>
  times. \<open>add_documents\<close> is the outer loop on the state of the two variables
  \<open>docTermMatrix\<close> and \<open>titles\<close>.
\<close>

definition add_doc_times :: "int \<Rightarrow> string \<Rightarrow> TermDocumentMatrix \<Rightarrow> TermDocumentMatrix" where
  "add_doc_times weight text tdm = (add_doc text ^^ nat weight) tdm"

fun add_documents ::
  "(int \<Rightarrow> error + rat) \<Rightarrow> Document list \<Rightarrow> TermDocumentMatrix \<times> string list
     \<Rightarrow> error + TermDocumentMatrix \<times> string list" where
  "add_documents fn [] st = Inr st"
| "add_documents fn (document # dataset) (docTermMatrix, titles) =
     (let titles' = titles @ [get_base_url document] in
      case apply_weighting (get_deg_sep document) fn of
        Inl e \<Rightarrow> Inl e
      | Inr weight \<Rightarrow>
          add_documents fn dataset
            (add_doc_times weight (join '' '' (get_document document)) docTermMatrix, titles'))"

definition createDocTermMat ::
  "(int \<Rightarrow> error + rat) \<Rightarrow> Document list \<Rightarrow> error + nat list list \<times> string list \<times> string list" where
  "createDocTermMat fn dataset =
     (case add_documents fn dataset (new_TermDocumentMatrix, []) of
        Inl e \<Rightarrow> Inl e
      | Inr (docTermMatrix, titles) \<Rightarrow>
          (let (terms, matrix) = rows 1 docTermMatrix in Inr (matrix, terms, titles)))"

section \<open>The topic model wrapper\<close>

text \<open>
  The fields of an \<open>LDAM\<close> object after \<open>fit\<close>: the vocabulary and the titles that
  \<open>createDocTermMat\<close> returned, and the two distributions \<^verbatim>\<open>model.topic_word_\<close>
  and \<^verbatim>\<open>model.doc_topic_\<close> that the fitting routine of the third-party package
  lda left behind, one row for each topic and one row for each row of the
  matrix. The probabilities are exact rationals here.
\<close>

record LDAM =
  terms :: "string list"
  documents :: "string list"
  topic_word :: "rat list list"
  doc_topic :: "rat list list"

text \<open>
  \<^verbatim>\<open>np.argsort(a)\<close> returns the indices of \<open>a\<close>, each once, in ascending order
  of their values. numpy's default sort is not stable: it leaves the order of
  the indices of equal values open. So the routine is an argument \<open>argsort\<close> of
  the model, and \<open>is_argsort\<close> says what is known of it. \<open>argsort_stable\<close>,
  which keeps equal values in the order of their indices, is one such routine.
\<close>

definition is_argsort :: "(rat list \<Rightarrow> nat list) \<Rightarrow> bool" where
  "is_argsort argsort =
     (\<forall>a. distinct (argsort a) \<and> set (argsort a) = {0..<length a}
          \<and> sorted (map (\<lambda>i. a ! i) (argsort a)))"

definition argsort_stable :: "rat list \<Rightarrow> nat list" where
  "argsort_stable a = sort_key (\<lambda>i. a ! i) [0..<length a]"

text \<open>
  \<^verbatim>\<open>np.array(terms)[indices]\<close>: the terms at the given indices; an index outside
  the array raises \<open>IndexError\<close>.
\<close>

definition take_indices :: "string list \<Rightarrow> nat list \<Rightarrow> error + string list" where
  "take_indices ts indices =
     (if list_all (\<lambda>i. i < length ts) indices then Inr (map (\<lambda>i. ts ! i) indices)
      else Inl IndexError)"

text \<open>
  The slice \<^verbatim>\<open>xs[:stop]\<close>: a negative \<open>stop\<close> counts from the end, and a bound
  outside the list is clipped.
\<close>

definition slice_to :: "int \<Rightarrow> 'a list \<Rightarrow> 'a list" where
  "slice_to stop xs =
     (if stop < 0 then take (nat (int (length xs) + stop)) xs else take (nat stop) xs)"

text \<open>
  \<^verbatim>\<open>
  def topics(self, n_words):
      yield self.terms
      for i, top_dist in enumerate(self.model.topic_word_):
          topic_words = np.array(self.terms)[np.argsort(top_dist)][:-(n_words+1)]
          yield 'Topic {}: {}'.format(i, ' '.join(topic_words))
  \<close>
  The generator is the list of what it yields, together with the exception that
  ended it, if one did. The first argument of the model is the sorting routine.
\<close>

datatype item = Terms "string list" | Line string

definition topic_words ::
  "(rat list \<Rightarrow> nat list) \<Rightarrow> string list \<Rightarrow> rat list \<Rightarrow> int \<Rightarrow> error + string list" where
  "topic_words argsort ts top_dist n_words =
     (case take_indices ts (argsort top_dist) of
        Inl e \<Rightarrow> Inl e
      | Inr sorted_terms \<Rightarrow> Inr (slice_to (- (n_words + 1)) sorted_terms))"

definition topic_line :: "nat \<Rightarrow> string list \<Rightarrow> string" where
  "topic_line i ws = ''Topic '' @ str_nat i @ '': '' @ join '' '' ws"

fun topics_from ::
  "(rat list \<Rightarrow> nat list) \<Rightarrow> string list \<Rightarrow> int \<Rightarrow> nat \<Rightarrow> rat list list
     \<Rightarrow> item list \<times> error option" where
  "topics_from argsort ts n_words i [] = ([], None)"
| "topics_from argsort ts n_words i (top_dist # rest) =
     (case topic_words argsort ts top_dist n_words of
        Inl e \<Rightarrow> ([], Some e)
      | Inr ws \<Rightarrow>
          (let (ys, e) = topics_from argsort ts n_words (Suc i) rest
           in (Line (topic_line i ws) # ys, e)))"

definition topics ::
  "(rat list \<Rightarrow> nat list) \<Rightarrow> LDAM \<Rightarrow> int \<Rightarrow> item list \<times> error option" where
  "topics argsort self n_words =
     (let (ys, e) = topics_from argsort (terms self) n_words 0 (topic_word self)
      in (Terms (terms self) # ys, e))"

text \<open>
  \<^verbatim>\<open>a.argmax()\<close>: the index of the first greatest entry; \<open>ValueError\<close> on an
  empty array. \<open>argmax_scan\<close> reads the rest of the array, \<open>best_i\<close> and \<open>best\<close>
  being the index and the value of the greatest entry so far.
\<close>

fun argmax_scan :: "rat list \<Rightarrow> nat \<Rightarrow> nat \<Rightarrow> rat \<Rightarrow> nat" where
  "argmax_scan [] i best_i best = best_i"
| "argmax_scan (x # xs) i best_i best =
     (if best < x then argmax_scan xs (Suc i) i x else argmax_scan xs (Suc i) best_i best)"

fun argmax :: "rat list \<Rightarrow> error + nat" where
  "argmax [] = Inl ValueError"
| "argmax (x # xs) = Inr (argmax_scan xs 1 0 x)"

text \<open>
  \<^verbatim>\<open>
  def printDocTopic(self):
      doc_topic = self.model.doc_topic_
      for i in range(len(self.documents)):
          print("{} (top topic: {})".format(self.documents[i], doc_topic[i].argmax()))
  \<close>
  The result is the list of the lines printed, together with the exception that
  ended the loop, if one did: \<open>doc_topic[i]\<close> raises \<open>IndexError\<close> when the
  distribution has no row \<open>i\<close>.
\<close>

definition doc_line :: "string \<Rightarrow> nat \<Rightarrow> string" where
  "doc_line title t = title @ '' (top topic: '' @ str_nat t @ '')''"

fun print_rows :: "LDAM \<Rightarrow> nat list \<Rightarrow> string list \<times> error option" where
  "print_rows self [] = ([], None)"
| "print_rows self (i # rest) =
     (if length (doc_topic self) \<le> i then ([], Some IndexError)
      else case argmax (doc_topic self ! i) of
        Inl e \<Rightarrow> ([], Some e)
      | Inr t \<Rightarrow>
          (let (out, e) = print_rows self rest
           in (doc_line (documents self ! i) t # out, e)))"

definition printDocTopic :: "LDAM \<Rightarrow> string list \<times> error option" where
  "printDocTopic self = print_rows self [0..<length (documents self)]"

section \<open>The corpus loader\<close>

text \<open>
  The values a field of a stored record can hold, with the name of the Python
  type of each, as \<^verbatim>\<open>'{}'.format(type(v))\<close> prints it.
\<close>

datatype py_value =
    PyStr string
  | PyBytes string
  | PyInt int
  | PyFloat rat
  | PyBool bool
  | PyNone
  | PyList "py_value list"

fun type_repr :: "py_value \<Rightarrow> string" where
  "type_repr (PyStr _) = ''<class 'str'>''"
| "type_repr (PyBytes _) = ''<class 'bytes'>''"
| "type_repr (PyInt _) = ''<class 'int'>''"
| "type_repr (PyFloat _) = ''<class 'float'>''"
| "type_repr (PyBool _) = ''<class 'bool'>''"
| "type_repr PyNone = ''<class 'NoneType'>''"
| "type_repr (PyList _) = ''<class 'list'>''"

text \<open>
  \<^verbatim>\<open>
  def filter_words(self, document):
      assert type(document) in [str], "Current type: {}. Document needs to be a string or an unicode for stopwords to work".format(type(document))
      return document.split()
      # Break the text up into tokens
      tokenizer = RegexpTokenizer(r'\w+')
      ...
      return text
  \<close>
  The statements after the first \<open>return\<close> are never run and have no part in the
  model.
\<close>

fun filter_words :: "py_value \<Rightarrow> error + string list" where
  "filter_words (PyStr s) = Inr (split s)"
| "filter_words document =
     Inl (AssertionError (''Current type: '' @ type_repr document
        @ ''. Document needs to be a string or an unicode for stopwords to work''))"

text \<open>
  A record of the text collection, with the three fields \<^verbatim>\<open>base_url\<close>,
  \<^verbatim>\<open>text\<close> and \<^verbatim>\<open>deg_sep\<close> that \<open>get_corpus\<close> reads. The degree of
  separation is stored as an integer, on which \<^verbatim>\<open>int(data['deg_sep'])\<close> is the
  identity.
\<close>

record text_record =
  rec_base_url :: string
  rec_text :: py_value
  rec_deg_sep :: int

text \<open>
  Modelled from the spec: the class \<^verbatim>\<open>items.DocumentItem\<close> is not among the
  sources. By the spec a document holds its base identifier, an accumulated list
  of words and a degree of separation, and folding a record in accumulates the
  record's words and tracks the maximum degree of separation seen. The degree a
  new document starts with, which the spec does not give, is the parameter
  \<open>d0\<close>.
\<close>

definition DocumentItem :: "int \<Rightarrow> string \<Rightarrow> Document" where
  "DocumentItem d0 url = \<lparr>get_base_url = url, get_document = [], get_deg_sep = d0\<rparr>"

definition add_words :: "string list \<Rightarrow> Document \<Rightarrow> Document" where
  "add_words ws doc = doc\<lparr>get_document := get_document doc @ ws\<rparr>"

definition update_degree :: "int \<Rightarrow> Document \<Rightarrow> Document" where
  "update_degree d doc = doc\<lparr>get_deg_sep := max (get_deg_sep doc) d\<rparr>"

text \<open>
  \<^verbatim>\<open>
  def get_corpus(self):
      uniq_base_urls = self.text_collection.distinct("base_url")
      corpus = []
      for base_url in uniq_base_urls:
          item = DocumentItem(base_url)
          for data in self.text_collection.find({"base_url": base_url}):
              item.add_words(self.filter_words(data['text']))
              item.update_degree(int(data['deg_sep']))
          corpus.append(item)
      return corpus
  \<close>
  The collection is the list of its records. \<^verbatim>\<open>distinct("base_url")\<close> is the
  list of the base identifiers without repetition (in an order the database
  chooses; here the order of their first records), and \<^verbatim>\<open>find\<close> the records
  with the given identifier, in the order of the collection.
\<close>

definition distinct_base_urls :: "text_record list \<Rightarrow> string list" where
  "distinct_base_urls text_collection = rev (remdups (rev (map rec_base_url text_collection)))"

definition find_base_url :: "text_record list \<Rightarrow> string \<Rightarrow> text_record list" where
  "find_base_url text_collection url = filter (\<lambda>data. rec_base_url data = url) text_collection"

fun fold_records :: "text_record list \<Rightarrow> Document \<Rightarrow> error + Document" where
  "fold_records [] doc = Inr doc"
| "fold_records (data # rest) doc =
     (case filter_words (rec_text data) of
        Inl e \<Rightarrow> Inl e
      | Inr ws \<Rightarrow> fold_records rest (update_degree (rec_deg_sep data) (add_words ws doc)))"

fun corpus_of :: "int \<Rightarrow> text_record list \<Rightarrow> string list \<Rightarrow> error + Document list" where
  "corpus_of d0 text_collection [] = Inr []"
| "corpus_of d0 text_collection (url # urls) =
     (case fold_records (find_base_url text_collection url) (DocumentItem d0 url) of
        Inl e \<Rightarrow> Inl e
      | Inr doc \<Rightarrow>
          (case corpus_of d0 text_collection urls of
             Inl e \<Rightarrow> Inl e
           | Inr corpus \<Rightarrow> Inr (doc # corpus)))"

definition get_corpus :: "int \<Rightarrow> text_record list \<Rightarrow> error + Document list" where
  "get_corpus d0 text_collection =
     corpus_of d0 text_collection (distinct_base_urls text_collection)"

section \<open>Properties of the weighting function\<close>

lemma py_int_one: "py_int 1 = 1"
  by (simp add: py_int_def)

lemma py_int_mono: "a \<le> b \<Longrightarrow> py_int a \<le> py_int b"
proof -
  assume ab: "a \<le> b"
  consider "0 \<le> a" | "a < 0" "0 \<le> b" | "b < 0" by linarith
  then show ?thesis
  proof cases
    case 1
    then show ?thesis using ab by (simp add: py_int_def floor_mono)
  next
    case 2
    have "\<lceil>a\<rceil> \<le> 0" using 2 by (simp add: ceiling_le_zero)
    moreover have "0 \<le> \<lfloor>b\<rfloor>" using 2 by simp
    ultimately have "\<lceil>a\<rceil> \<le> \<lfloor>b\<rfloor>" by linarith
    then show ?thesis using 2 by (simp add: py_int_def)
  next
    case 3
    then show ?thesis using ab by (simp add: py_int_def ceiling_mono)
  qed
qed

lemma py_int_pos: "1 \<le> q \<Longrightarrow> 0 < py_int q"
  by (simp add: py_int_def)

lemma weighting_ordered:
  assumes "fn d = Inr a" "fn d' = Inr a'" "fn MAX_DEGREE = Inr b"
    and "0 < b" "b \<le> a'" "a' \<le> a"
  shows "\<exists>w w'. apply_weighting d fn = Inr w \<and> apply_weighting d' fn = Inr w' \<and> 0 < w' \<and> w' \<le> w"
proof -
  have "1 \<le> a' / b" using assms by (simp add: le_divide_eq_1)
  moreover have "a' / b \<le> a / b" using assms by (simp add: divide_right_mono)
  ultimately show ?thesis using assms
    by (simp add: apply_weighting_def py_int_mono py_int_pos)
qed

lemma power_law_pos: "0 < x \<Longrightarrow> power_law k x = Inr (1 / (of_int x) ^ k)"
  by (simp add: power_law_def)

lemma py_int_of_int_div: "0 < b \<Longrightarrow> 0 \<le> a \<Longrightarrow> py_int (of_int a / of_int b) = a div b"
  by (simp add: py_int_def floor_divide_of_int_eq)

lemma power_law_weight_value:
  assumes "1 \<le> d"
  shows "apply_weighting d (power_law k) = Inr (10 ^ k div d ^ k)"
proof -
  have "(1 / (of_int d) ^ k) / (1 / (of_int MAX_DEGREE) ^ k) = (of_int (10 ^ k) / of_int (d ^ k) :: rat)"
    by (simp add: MAX_DEGREE_def)
  moreover have "py_int (of_int (10 ^ k) / of_int (d ^ k)) = 10 ^ k div d ^ k"
    using assms by (intro py_int_of_int_div) auto
  ultimately show ?thesis using assms
    by (simp add: apply_weighting_def power_law_pos MAX_DEGREE_def)
qed

text \<open>
  Claim C5. For a degree of separation equal to \<open>MAX_DEGREE\<close>, and any weighting
  function whose value there is not zero, \<open>apply_weighting\<close> returns exactly 1.
\<close>

theorem apply_weighting_MAX_DEGREE:
  assumes "fn MAX_DEGREE = Inr v" and "v \<noteq> 0"
  shows "apply_weighting MAX_DEGREE fn = Inr 1"
  using assms by (simp add: apply_weighting_def py_int_one)

theorem apply_weighting_MAX_DEGREE_witness:
  "apply_weighting MAX_DEGREE (\<lambda>x. Inr (1 / of_int x)) = Inr 1"
  using apply_weighting_MAX_DEGREE [of "\<lambda>x. Inr (1 / of_int x)" "1 / 10"]
  by (simp add: MAX_DEGREE_def)

text \<open>
  Claim C4. For degrees of separation \<open>1 \<le> d \<le> d' \<le> MAX_DEGREE\<close>, \<open>apply_weighting\<close>
  with the default weighting function returns an integer at both, the one at \<open>d'\<close>
  is positive (so every value in the range is), and the one at the lower degree \<open>d\<close>
  is not smaller: the replication count is non-increasing in the degree of
  separation.
\<close>

theorem apply_weighting_power_law:
  assumes "1 \<le> d" and "d \<le> d'" and "d' \<le> MAX_DEGREE"
  shows "\<exists>w w'. apply_weighting d (power_law k) = Inr w
            \<and> apply_weighting d' (power_law k) = Inr w' \<and> 0 < w' \<and> w' \<le> w"
proof (rule weighting_ordered)
  show "power_law k d = Inr (1 / (of_int d) ^ k)" using assms by (simp add: power_law_pos)
  show "power_law k d' = Inr (1 / (of_int d') ^ k)" using assms by (simp add: power_law_pos)
  show "power_law k MAX_DEGREE = Inr (1 / (of_int MAX_DEGREE) ^ k)" by (simp add: power_law_pos MAX_DEGREE_def)
  show "(0::rat) < 1 / (of_int MAX_DEGREE) ^ k" by (simp add: MAX_DEGREE_def)
  have "(of_int d' :: rat) ^ k \<le> (of_int MAX_DEGREE) ^ k" using assms by (intro power_mono) auto
  moreover have "(0::rat) < (of_int d') ^ k" using assms by simp
  ultimately show "(1::rat) / (of_int MAX_DEGREE) ^ k \<le> 1 / (of_int d') ^ k"
    by (simp add: frac_le)
  have "(of_int d :: rat) ^ k \<le> (of_int d') ^ k" using assms by (intro power_mono) auto
  moreover have "(0::rat) < (of_int d) ^ k" using assms by simp
  ultimately show "(1::rat) / (of_int d') ^ k \<le> 1 / (of_int d) ^ k"
    by (simp add: frac_le)
qed

theorem apply_weighting_power_law_witness:
  "(1::int) \<le> 2 \<and> (2::int) \<le> 5 \<and> 5 \<le> MAX_DEGREE
   \<and> (\<exists>w w'. apply_weighting 2 (power_law 2) = Inr w
         \<and> apply_weighting 5 (power_law 2) = Inr w' \<and> 0 < w' \<and> w' \<le> w)"
  using apply_weighting_power_law [of 2 5 2] by (simp add: MAX_DEGREE_def)

section \<open>Properties of the matrix builder\<close>

subsection \<open>Dictionaries in insertion order\<close>

lemma keys_dict_incr: "fst ` set (dict_incr w d) = insert w (fst ` set d)"
  by (simp add: dict_incr_def dom_update)

lemma keys_fold_dict_incr: "fst ` set (fold dict_incr ws d) = fst ` set d \<union> set ws"
  by (induction ws arbitrary: d) (auto simp: keys_dict_incr)

lemma key_list_dict_incr:
  "map fst (dict_incr w d) = (if w \<in> set (map fst d) then map fst d else map fst d @ [w])"
  unfolding dict_incr_def by (rule update_keys)

lemma key_list_fold_dict_incr:
  "set ws \<subseteq> fst ` set d \<Longrightarrow> map fst (fold dict_incr ws d) = map fst d"
proof (induction ws arbitrary: d)
  case Nil
  then show ?case by simp
next
  case (Cons w ws)
  have "map fst (dict_incr w d) = map fst d"
    using Cons.prems by (simp add: key_list_dict_incr)
  moreover have "set ws \<subseteq> fst ` set (dict_incr w d)"
    using Cons.prems by (auto simp: keys_dict_incr)
  ultimately show ?case using Cons.IH [of "dict_incr w d"] by simp
qed

lemma values_update: "snd ` set (AList.update k v al) \<subseteq> insert v (snd ` set al)"
  by (induction al) auto

lemma positive_dict_incr:
  assumes "list_all (\<lambda>p. 0 < snd p) d"
  shows "list_all (\<lambda>p. 0 < snd p) (dict_incr w d)"
proof -
  have "snd ` set (dict_incr w d) \<subseteq> insert (dict_get d w + 1) (snd ` set d)"
    unfolding dict_incr_def by (rule values_update)
  moreover have "\<forall>c\<in>snd ` set d. 0 < c" using assms by (auto simp: list_all_iff)
  ultimately show ?thesis by (fastforce simp: list_all_iff)
qed

lemma positive_fold_dict_incr:
  "list_all (\<lambda>p. 0 < snd p) d \<Longrightarrow> list_all (\<lambda>p. 0 < snd p) (fold dict_incr ws d)"
  by (induction ws arbitrary: d) (auto simp: positive_dict_incr)

lemma keys_word_counts: "fst ` set (word_counts s) = set (simple_tokenize s)"
  by (simp add: word_counts_def keys_fold_dict_incr)

subsection \<open>Adding documents\<close>

lemma sparse_add_doc_times:
  "sparse (add_doc_times w s tdm) = sparse tdm @ replicate (nat w) (word_counts s)"
proof -
  have "sparse ((add_doc s ^^ n) tdm) = sparse tdm @ replicate n (word_counts s)" for n
    by (induction n) (auto simp: add_doc_def replicate_append_same)
  then show ?thesis by (simp add: add_doc_times_def)
qed

lemma keys_add_doc:
  "fst ` set (doc_count (add_doc s tdm)) = fst ` set (doc_count tdm) \<union> set (simple_tokenize s)"
  using keys_fold_dict_incr [of "map fst (word_counts s)" "doc_count tdm"] keys_word_counts [of s]
  by (simp add: add_doc_def)

lemma keys_add_doc_times:
  "fst ` set (doc_count (add_doc_times w s tdm)) =
     fst ` set (doc_count tdm) \<union> (if 0 < w then set (simple_tokenize s) else {})"
proof -
  have "fst ` set (doc_count ((add_doc s ^^ n) tdm)) =
     fst ` set (doc_count tdm) \<union> (if 0 < n then set (simple_tokenize s) else {})" for n
    by (induction n) (auto simp: keys_add_doc)
  from this [of "nat w"] show ?thesis by (simp add: add_doc_times_def)
qed

lemma positive_add_doc:
  "list_all (\<lambda>p. 0 < snd p) (doc_count tdm) \<Longrightarrow> list_all (\<lambda>p. 0 < snd p) (doc_count (add_doc s tdm))"
  by (simp add: add_doc_def positive_fold_dict_incr)

lemma positive_add_doc_times:
  assumes "list_all (\<lambda>p. 0 < snd p) (doc_count tdm)"
  shows "list_all (\<lambda>p. 0 < snd p) (doc_count (add_doc_times w s tdm))"
proof -
  have "list_all (\<lambda>p. 0 < snd p) (doc_count ((add_doc s ^^ n) tdm))" for n
    using assms by (induction n) (auto simp: positive_add_doc)
  then show ?thesis by (simp add: add_doc_times_def)
qed

lemma add_doc_times_nonpos: "w \<le> 0 \<Longrightarrow> add_doc_times w s tdm = tdm"
  by (simp add: add_doc_times_def)

lemma rows_1_positive:
  assumes "list_all (\<lambda>p. 0 < snd p) (doc_count tdm)"
  shows "rows 1 tdm = (map fst (doc_count tdm),
           map (\<lambda>row. map (dict_get row) (map fst (doc_count tdm))) (sparse tdm))"
proof -
  have "filter (\<lambda>(word, n). 1 \<le> n) (doc_count tdm) = doc_count tdm"
    using assms by (intro filter_True) (auto simp: list_all_iff)
  then show ?thesis by (simp add: rows_def)
qed

lemma length_rows: "length (snd (rows cutoff tdm)) = length (sparse tdm)"
  by (simp add: rows_def Let_def)

subsection \<open>The loop of createDocTermMat\<close>

lemma add_documents_append:
  "add_documents fn (xs @ ys) st =
     (case add_documents fn xs st of Inl e \<Rightarrow> Inl e | Inr st' \<Rightarrow> add_documents fn ys st')"
  by (induction fn xs st rule: add_documents.induct) (auto split: sum.splits)

lemma add_documents_titles:
  "add_documents fn ds (tdm, ts) =
     (case add_documents fn ds (tdm, []) of
        Inl e \<Rightarrow> Inl e
      | Inr (tdm', ts') \<Rightarrow> Inr (tdm', ts @ ts'))"
proof (induction ds arbitrary: tdm ts)
  case Nil
  then show ?case by simp
next
  case (Cons d ds)
  show ?case
  proof (cases "apply_weighting (get_deg_sep d) fn")
    case (Inl e)
    then show ?thesis by simp
  next
    case (Inr w)
    let ?t = "add_doc_times w (join '' '' (get_document d)) tdm"
    have 1: "add_documents fn ds (?t, ts @ [get_base_url d]) =
       (case add_documents fn ds (?t, []) of Inl e \<Rightarrow> Inl e | Inr (tdm', ts') \<Rightarrow> Inr (tdm', (ts @ [get_base_url d]) @ ts'))"
      by (rule Cons.IH)
    have 2: "add_documents fn ds (?t, [get_base_url d]) =
       (case add_documents fn ds (?t, []) of Inl e \<Rightarrow> Inl e | Inr (tdm', ts') \<Rightarrow> Inr (tdm', [get_base_url d] @ ts'))"
      by (rule Cons.IH)
    show ?thesis using Inr 1 2 by (simp split: sum.splits prod.splits)
  qed
qed

lemma add_documents_weights:
  assumes "map (\<lambda>doc. apply_weighting (get_deg_sep doc) fn) ds = map Inr ws"
  shows "add_documents fn ds (tdm, ts) =
     Inr (fold (\<lambda>(doc, w). add_doc_times w (join '' '' (get_document doc))) (zip ds ws) tdm,
          ts @ map get_base_url ds)"
  using assms
proof (induction ds arbitrary: ws tdm ts)
  case Nil
  then show ?case by simp
next
  case (Cons d ds)
  then obtain w ws' where ws: "ws = w # ws'" by (cases ws) auto
  with Cons.prems have w: "apply_weighting (get_deg_sep d) fn = Inr w"
    and rest: "map (\<lambda>doc. apply_weighting (get_deg_sep doc) fn) ds = map Inr ws'" by auto
  show ?case using w ws Cons.IH [OF rest] by simp
qed

lemma sparse_fold_add_doc_times:
  "sparse (fold (\<lambda>(doc, w). add_doc_times w (join '' '' (get_document doc))) zs tdm) =
     sparse tdm @ concat (map (\<lambda>(doc, w). replicate (nat w) (word_counts (join '' '' (get_document doc)))) zs)"
  by (induction zs arbitrary: tdm) (auto simp: sparse_add_doc_times)

lemma keys_fold_add_doc_times:
  "fst ` set (doc_count (fold (\<lambda>(doc, w). add_doc_times w (join '' '' (get_document doc))) zs tdm)) =
     fst ` set (doc_count tdm)
     \<union> (\<Union>(doc, w)\<in>set zs. if 0 < w then set (simple_tokenize (join '' '' (get_document doc))) else {})"
proof (induction zs arbitrary: tdm)
  case Nil
  then show ?case by simp
next
  case (Cons z zs)
  obtain doc w where z: "z = (doc, w)" by (cases z)
  show ?case
    unfolding z by (simp add: Cons.IH keys_add_doc_times Un_assoc)
qed

lemma positive_fold_add_doc_times:
  "list_all (\<lambda>p. 0 < snd p) (doc_count tdm) \<Longrightarrow>
   list_all (\<lambda>p. 0 < snd p)
     (doc_count (fold (\<lambda>(doc, w). add_doc_times w (join '' '' (get_document doc))) zs tdm))"
  by (induction zs arbitrary: tdm) (auto simp: positive_add_doc_times)

lemma length_concat_replicate:
  "int (length (concat (map (\<lambda>(doc, w). replicate (nat w) (f doc)) zs))) = (\<Sum>w\<leftarrow>map snd zs. max 0 w)"
  by (induction zs) (auto simp: max_def)

lemma positive_new: "list_all (\<lambda>p. 0 < snd p) (doc_count new_TermDocumentMatrix)"
  by (simp add: new_TermDocumentMatrix_def)

lemma createDocTermMat_weights:
  assumes "map (\<lambda>doc. apply_weighting (get_deg_sep doc) fn) dataset = map Inr ws"
  shows "createDocTermMat fn dataset =
     (let tdm = fold (\<lambda>(doc, w). add_doc_times w (join '' '' (get_document doc))) (zip dataset ws)
                  new_TermDocumentMatrix
      in Inr (map (\<lambda>row. map (dict_get row) (map fst (doc_count tdm))) (sparse tdm),
              map fst (doc_count tdm), map get_base_url dataset))"
proof -
  let ?tdm = "fold (\<lambda>(doc, w). add_doc_times w (join '' '' (get_document doc))) (zip dataset ws)
                  new_TermDocumentMatrix"
  have "list_all (\<lambda>p. 0 < snd p) (doc_count ?tdm)"
    by (rule positive_fold_add_doc_times [OF positive_new])
  then have "rows 1 ?tdm = (map fst (doc_count ?tdm),
           map (\<lambda>row. map (dict_get row) (map fst (doc_count ?tdm))) (sparse ?tdm))"
    by (rule rows_1_positive)
  then show ?thesis
    by (simp add: createDocTermMat_def add_documents_weights [OF assms] Let_def)
qed

lemma add_documents_titles_eq:
  "add_documents fn ds (tdm, ts) = Inr (tdm', ts') \<Longrightarrow> ts' = ts @ map get_base_url ds"
proof (induction ds arbitrary: tdm ts)
  case Nil
  then show ?case by simp
next
  case (Cons d ds)
  then show ?case by (fastforce split: sum.splits)
qed

lemma add_documents_skip:
  assumes "apply_weighting (get_deg_sep doc) fn = Inr w" and "w \<le> 0"
  shows "add_documents fn (pre @ doc # post) (tdm, []) =
     (case add_documents fn (pre @ post) (tdm, []) of
        Inl e \<Rightarrow> Inl e
      | Inr (tdm', titles) \<Rightarrow>
          Inr (tdm', take (length pre) titles @ get_base_url doc # drop (length pre) titles))"
proof (cases "add_documents fn pre (tdm, [])")
  case (Inl e)
  then show ?thesis by (simp add: add_documents_append)
next
  case (Inr st)
  obtain t1 ts1 where st: "st = (t1, ts1)" by (cases st)
  have len: "length ts1 = length pre"
    using add_documents_titles_eq [of fn pre tdm "[]" t1 ts1] Inr st by simp
  have with_doc: "add_documents fn (pre @ doc # post) (tdm, []) =
      (case add_documents fn post (t1, []) of
         Inl e \<Rightarrow> Inl e
       | Inr (t2, ts2) \<Rightarrow> Inr (t2, (ts1 @ [get_base_url doc]) @ ts2))"
    using assms Inr st add_documents_titles [of fn post t1 "ts1 @ [get_base_url doc]"]
    by (simp add: add_documents_append add_doc_times_nonpos)
  have without: "add_documents fn (pre @ post) (tdm, []) =
      (case add_documents fn post (t1, []) of
         Inl e \<Rightarrow> Inl e
       | Inr (t2, ts2) \<Rightarrow> Inr (t2, ts1 @ ts2))"
    using Inr st add_documents_titles [of fn post t1 ts1]
    by (simp add: add_documents_append)
  show ?thesis
    unfolding with_doc without using len
    by (simp split: sum.splits prod.splits)
qed

lemma key_list_fold:
  "map fst (fold dict_incr ws d) =
     fold (\<lambda>w ks. if w \<in> set ks then ks else ks @ [w]) ws (map fst d)"
  by (induction ws arbitrary: d) (simp_all add: key_list_dict_incr)

lemma key_list_add_doc:
  "map fst (doc_count (add_doc s tdm)) =
     fold (\<lambda>w ks. if w \<in> set ks then ks else ks @ [w]) (map fst (word_counts s))
       (map fst (doc_count tdm))"
  by (simp add: add_doc_def key_list_fold)

lemma key_list_add_doc_again:
  assumes "set (simple_tokenize s) \<subseteq> fst ` set (doc_count tdm)"
  shows "map fst (doc_count (add_doc s tdm)) = map fst (doc_count tdm)"
  using assms key_list_fold_dict_incr [of "map fst (word_counts s)" "doc_count tdm"]
  by (simp add: add_doc_def keys_word_counts)

lemma key_list_add_doc_times:
  assumes "0 < w"
  shows "map fst (doc_count (add_doc_times w s tdm)) = map fst (doc_count (add_doc s tdm))"
proof -
  have "map fst (doc_count ((add_doc s ^^ Suc n) tdm)) = map fst (doc_count (add_doc s tdm))" for n
  proof (induction n)
    case 0
    then show ?case by simp
  next
    case (Suc n)
    have "set (simple_tokenize s) \<subseteq> fst ` set (doc_count ((add_doc s ^^ Suc n) tdm))"
      by (simp add: keys_add_doc)
    then have "map fst (doc_count (add_doc s ((add_doc s ^^ Suc n) tdm)))
        = map fst (doc_count ((add_doc s ^^ Suc n) tdm))"
      by (rule key_list_add_doc_again)
    then show ?case using Suc by simp
  qed
  from this [of "nat w - 1"] assms show ?thesis
    by (simp add: add_doc_times_def)
qed

lemma word_counts_a: "word_counts ''cat dog cat'' = [(''cat'', 2), (''dog'', 1)]"
  by (simp add: word_counts_def simple_tokenize_def lower_def split_def isspace_def
      dict_incr_def dict_get_def)

lemma word_counts_b: "word_counts ''dog bird'' = [(''dog'', 1), (''bird'', 1)]"
  by (simp add: word_counts_def simple_tokenize_def lower_def split_def isspace_def
      dict_incr_def dict_get_def)

text \<open>
  The corpus of the scenario of the spec, a document at degree 1 and one at
  degree \<open>MAX_DEGREE\<close>, under an inverse power law of a positive exponent.
\<close>

lemma createDocTermMat_scenario:
  "createDocTermMat (power_law (Suc k))
     [\<lparr>get_base_url = ''a'', get_document = [''cat'', ''dog'', ''cat''], get_deg_sep = 1\<rparr>,
      \<lparr>get_base_url = ''b'', get_document = [''dog'', ''bird''], get_deg_sep = 10\<rparr>]
   = Inr (replicate (10 ^ Suc k) [2, 1, 0] @ [[0, 1, 1]],
          [''cat'', ''dog'', ''bird''], [''a'', ''b''])"
proof -
  let ?a = "\<lparr>get_base_url = ''a'', get_document = [''cat'', ''dog'', ''cat''], get_deg_sep = 1\<rparr>"
  let ?b = "\<lparr>get_base_url = ''b'', get_document = [''dog'', ''bird''], get_deg_sep = 10\<rparr>"
  define n :: int where "n = 10 ^ Suc k"
  define ta where "ta = add_doc_times n ''cat dog cat'' new_TermDocumentMatrix"
  define tb where "tb = add_doc_times 1 ''dog bird'' ta"
  have pos: "0 < n"
    by (simp add: n_def)
  have "n = int (10 ^ Suc k)"
    by (simp add: n_def)
  then have nat_n: "nat n = 10 ^ Suc k"
    by (simp only: nat_int)
  have w: "map (\<lambda>doc. apply_weighting (get_deg_sep doc) (power_law (Suc k))) [?a, ?b]
      = map Inr [n, 1]"
    by (simp add: power_law_weight_value n_def)
  have fold: "fold (\<lambda>(doc, w). add_doc_times w (join '' '' (get_document doc)))
      (zip [?a, ?b] [n, 1]) new_TermDocumentMatrix = tb"
    by (simp add: ta_def tb_def)
  have ka: "map fst (doc_count ta) = [''cat'', ''dog'']"
    unfolding ta_def key_list_add_doc_times [OF pos]
    by (simp add: key_list_add_doc word_counts_a new_TermDocumentMatrix_def)
  have tb: "tb = add_doc ''dog bird'' ta"
    by (simp add: tb_def add_doc_times_def)
  have kb: "map fst (doc_count tb) = [''cat'', ''dog'', ''bird'']"
    unfolding tb by (simp add: key_list_add_doc word_counts_b ka)
  have sp: "sparse tb = replicate (10 ^ Suc k) (word_counts ''cat dog cat'') @ [word_counts ''dog bird'']"
    unfolding tb_def ta_def sparse_add_doc_times nat_n
    by (simp add: new_TermDocumentMatrix_def)
  show ?thesis
    unfolding createDocTermMat_weights [OF w] fold Let_def kb sp
    by (simp add: word_counts_a word_counts_b dict_get_def)
qed

section \<open>Properties of createDocTermMat\<close>

text \<open>
  Claim C2. When the weight of every document is computed without an exception
  (\<open>ws\<close> is the list of the weights, in the order of the dataset),
  \<open>createDocTermMat\<close> returns; the titles are as many as the documents, and the
  matrix has as many rows as the weights that are positive add up to, which is
  the sum of the weights when none of them is negative.
\<close>

theorem createDocTermMat_counts:
  assumes "map (\<lambda>doc. apply_weighting (get_deg_sep doc) fn) dataset = map Inr ws"
  shows "\<exists>matrix terms titles.
           createDocTermMat fn dataset = Inr (matrix, terms, titles)
           \<and> length titles = length dataset
           \<and> int (length matrix) = (\<Sum>w\<leftarrow>ws. max 0 w)
           \<and> ((\<forall>w\<in>set ws. 0 \<le> w) \<longrightarrow> int (length matrix) = sum_list ws)"
proof -
  have len: "length dataset = length ws"
    using assms by (metis length_map)
  have m: "map (max 0) ws = ws" if "\<forall>w\<in>set ws. 0 \<le> w"
    using that by (induction ws) (auto simp: max_def)
  have "int (length (concat (map (\<lambda>(doc, w). replicate (nat w) (word_counts (join '' '' (get_document doc)))) (zip dataset ws))))
       = (\<Sum>w\<leftarrow>map snd (zip dataset ws). max 0 w)"
    by (rule length_concat_replicate)
  also have "map snd (zip dataset ws) = ws" using len by simp
  finally show ?thesis
    using m by (auto simp: createDocTermMat_weights [OF assms] Let_def sparse_fold_add_doc_times
        new_TermDocumentMatrix_def)
qed

theorem createDocTermMat_counts_witness:
  "\<exists>matrix vocabulary titles.
     createDocTermMat (power_law 1)
       [\<lparr>get_base_url = ''a'', get_document = [''cat'', ''dog'', ''cat''], get_deg_sep = 1\<rparr>,
        \<lparr>get_base_url = ''b'', get_document = [''dog'', ''bird''], get_deg_sep = 10\<rparr>]
       = Inr (matrix, vocabulary, titles)
     \<and> length titles = 2 \<and> int (length matrix) = 11"
  using createDocTermMat_counts [of "power_law 1"
      "[\<lparr>get_base_url = ''a'', get_document = [''cat'', ''dog'', ''cat''], get_deg_sep = 1\<rparr>,
        \<lparr>get_base_url = ''b'', get_document = [''dog'', ''bird''], get_deg_sep = 10\<rparr>]" "[10, 1]"]
  by (auto simp add: power_law_weight_value)

text \<open>
  Claim C10. A document whose weight is zero or negative adds its base
  identifier to the titles, at its own position, and nothing to the matrix or
  to the vocabulary: the result is the result for the dataset without that
  document, but for the one more title.
\<close>

theorem createDocTermMat_nonpositive_weight:
  assumes "apply_weighting (get_deg_sep doc) fn = Inr w" and "w \<le> 0"
  shows "createDocTermMat fn (pre @ doc # post) =
     (case createDocTermMat fn (pre @ post) of
        Inl e \<Rightarrow> Inl e
      | Inr (matrix, vocabulary, titles) \<Rightarrow>
          Inr (matrix, vocabulary,
               take (length pre) titles @ get_base_url doc # drop (length pre) titles))"
  unfolding createDocTermMat_def add_documents_skip [OF assms]
  by (simp split: sum.splits prod.splits)

theorem createDocTermMat_nonpositive_weight_witness:
  "apply_weighting 11 (power_law 1) = Inr 0 \<and>
   createDocTermMat (power_law 1)
     [\<lparr>get_base_url = ''far'', get_document = [''cat''], get_deg_sep = 11\<rparr>,
      \<lparr>get_base_url = ''b'', get_document = [''dog'', ''bird''], get_deg_sep = 10\<rparr>]
   = Inr ([[1, 1]], [''dog'', ''bird''], [''far'', ''b''])"
proof -
  have w: "apply_weighting (get_deg_sep \<lparr>get_base_url = ''far'', get_document = [''cat''], get_deg_sep = 11\<rparr>) (power_law 1) = Inr 0"
    by (simp add: power_law_weight_value)
  have b: "createDocTermMat (power_law 1)
     [\<lparr>get_base_url = ''b'', get_document = [''dog'', ''bird''], get_deg_sep = 10\<rparr>]
     = Inr ([[1, 1]], [''dog'', ''bird''], [''b''])"
    by (simp add: createDocTermMat_def power_law_weight_value new_TermDocumentMatrix_def
        add_doc_times_def add_doc_def word_counts_b dict_incr_def dict_get_def rows_def)
  show ?thesis
    using w createDocTermMat_nonpositive_weight [OF w, of "[]"
        "[\<lparr>get_base_url = ''b'', get_document = [''dog'', ''bird''], get_deg_sep = 10\<rparr>]"] b
    by simp
qed

text \<open>
  Claim C3, as amended. The vocabulary that \<open>createDocTermMat\<close> returns holds
  exactly the terms that the tokenizer finds in the documents whose weight is at
  least 1: a term is there whether it occurs once or more often.
\<close>

theorem createDocTermMat_vocabulary:
  assumes "map (\<lambda>doc. apply_weighting (get_deg_sep doc) fn) dataset = map Inr ws"
  shows "\<exists>matrix terms titles.
           createDocTermMat fn dataset = Inr (matrix, terms, titles)
           \<and> set terms = (\<Union>(doc, w)\<in>set (zip dataset ws).
                 if 0 < w then set (simple_tokenize (join '' '' (get_document doc))) else {})"
  using keys_fold_add_doc_times [of "zip dataset ws" new_TermDocumentMatrix]
  by (simp add: createDocTermMat_weights [OF assms] Let_def new_TermDocumentMatrix_def)

theorem createDocTermMat_vocabulary_witness:
  "\<exists>matrix vocabulary titles.
     createDocTermMat (power_law 1)
       [\<lparr>get_base_url = ''far'', get_document = [''cat'', ''cat''], get_deg_sep = 11\<rparr>,
        \<lparr>get_base_url = ''b'', get_document = [''dog'', ''bird''], get_deg_sep = 10\<rparr>]
       = Inr (matrix, vocabulary, titles)
     \<and> set vocabulary = {''dog'', ''bird''}"
proof -
  have tok: "simple_tokenize ''dog bird'' = [''dog'', ''bird'']"
    by (simp add: simple_tokenize_def lower_def split_def isspace_def)
  show ?thesis
    using createDocTermMat_vocabulary [of "power_law 1"
      "[\<lparr>get_base_url = ''far'', get_document = [''cat'', ''cat''], get_deg_sep = 11\<rparr>,
        \<lparr>get_base_url = ''b'', get_document = [''dog'', ''bird''], get_deg_sep = 10\<rparr>]" "[0, 1]"]
    by (auto simp add: power_law_weight_value tok)
qed

text \<open>
  Claim C3, as stated, fails: of two documents of weight 1, the term
  \<open>bird\<close> occurs exactly once in the whole corpus and is in the vocabulary.
\<close>

theorem createDocTermMat_singleton_term_counterexample:
  "createDocTermMat (power_law 1)
     [\<lparr>get_base_url = ''a'', get_document = [''cat'', ''dog'', ''cat''], get_deg_sep = 10\<rparr>,
      \<lparr>get_base_url = ''b'', get_document = [''dog'', ''bird''], get_deg_sep = 10\<rparr>]
     = Inr ([[2, 1, 0], [0, 1, 1]], [''cat'', ''dog'', ''bird''], [''a'', ''b''])
   \<and> count_list (concat (map get_document
     [\<lparr>get_base_url = ''a'', get_document = [''cat'', ''dog'', ''cat''], get_deg_sep = 10\<rparr>,
      \<lparr>get_base_url = ''b'', get_document = [''dog'', ''bird''], get_deg_sep = 10\<rparr>])) ''bird'' = 1"
  by (simp add: createDocTermMat_def power_law_weight_value new_TermDocumentMatrix_def
        add_doc_times_def add_doc_def word_counts_a word_counts_b dict_incr_def dict_get_def rows_def)

text \<open>
  Claim C1. For the corpus of a document at degree 1 and one at degree
  \<open>MAX_DEGREE\<close>, and an inverse power law of any positive exponent, the matrix
  has \<open>10 ^ Suc k + 1\<close> rows and the titles are two: the second title belongs
  to the last row, and row 1 of the matrix is a copy of the row of the first
  document.
\<close>

theorem createDocTermMat_replicated_rows:
  "createDocTermMat (power_law (Suc k))
     [\<lparr>get_base_url = ''a'', get_document = [''cat'', ''dog'', ''cat''], get_deg_sep = 1\<rparr>,
      \<lparr>get_base_url = ''b'', get_document = [''dog'', ''bird''], get_deg_sep = 10\<rparr>]
   = Inr (replicate (10 ^ Suc k) [2, 1, 0] @ [[0, 1, 1]],
          [''cat'', ''dog'', ''bird''], [''a'', ''b''])"
  by (rule createDocTermMat_scenario)

section \<open>Properties of the topic model wrapper\<close>

lemma is_argsort_stable: "is_argsort argsort_stable"
  by (simp add: is_argsort_def argsort_stable_def)

lemma argsort_unique:
  assumes "is_argsort argsort" and "distinct a"
  shows "argsort a = argsort_stable a"
proof (rule map_sorted_distinct_set_unique [where f = "\<lambda>i. a ! i"])
  have inj: "inj_on (\<lambda>i. a ! i) {0..<length a}"
    using assms(2) by (auto simp: inj_on_def nth_eq_iff_index_eq)
  have s1: "set (argsort a) = {0..<length a}" and s2: "set (argsort_stable a) = {0..<length a}"
    using assms(1) is_argsort_stable by (simp_all add: is_argsort_def)
  show "inj_on (\<lambda>i. a ! i) (set (argsort a) \<union> set (argsort_stable a))"
    using inj by (simp add: s1 s2)
  show "sorted (map (\<lambda>i. a ! i) (argsort a))"
    using assms(1) by (simp add: is_argsort_def)
  show "sorted (map (\<lambda>i. a ! i) (argsort_stable a))"
    using is_argsort_stable by (simp add: is_argsort_def)
  show "distinct (map (\<lambda>i. a ! i) (argsort a))"
    using assms(1) inj by (simp add: distinct_map is_argsort_def)
  show "distinct (map (\<lambda>i. a ! i) (argsort_stable a))"
    using is_argsort_stable inj by (simp add: distinct_map is_argsort_def)
  show "set (argsort a) = set (argsort_stable a)"
    by (simp add: s1 s2)
qed

lemma take_indices_argsort:
  assumes "is_argsort argsort" and "length top_dist = length ts"
  shows "take_indices ts (argsort top_dist) = Inr (map (\<lambda>i. ts ! i) (argsort top_dist))"
proof -
  have "set (argsort top_dist) = {0..<length ts}"
    using assms by (simp add: is_argsort_def)
  then show ?thesis by (simp add: take_indices_def list_all_iff)
qed

lemma length_is_argsort:
  assumes "is_argsort argsort"
  shows "length (argsort a) = length a"
proof -
  have "distinct (argsort a)" and "set (argsort a) = {0..<length a}"
    using assms by (simp_all add: is_argsort_def)
  then have "card {0..<length a} = length (argsort a)"
    by (metis distinct_card)
  then show ?thesis by simp
qed

lemma slice_to_negative:
  "0 \<le> n \<Longrightarrow> slice_to (- (n + 1)) xs = take (length xs - (nat n + 1)) xs"
proof -
  assume "0 \<le> n"
  then have "nat (int (length xs) + - (n + 1)) = length xs - (nat n + 1)"
    by arith
  with \<open>0 \<le> n\<close> show ?thesis
    unfolding slice_to_def by simp
qed

lemma topic_words_fitted:
  assumes "is_argsort argsort" and "length top_dist = length ts" and "0 \<le> n_words"
  shows "topic_words argsort ts top_dist n_words =
     Inr (take (length ts - (nat n_words + 1)) (map (\<lambda>i. ts ! i) (argsort top_dist)))"
  unfolding topic_words_def take_indices_argsort [OF assms(1,2)] slice_to_negative [OF assms(3)]
  using assms by (simp add: length_is_argsort)

lemma topics_from_fitted:
  assumes "is_argsort argsort"
    and "list_all (\<lambda>top_dist. length top_dist = length ts) dists" and "0 \<le> n_words"
  shows "topics_from argsort ts n_words i dists =
     (map (\<lambda>(j, top_dist). Line (topic_line j
         (take (length ts - (nat n_words + 1)) (map (\<lambda>i. ts ! i) (argsort top_dist)))))
        (enumerate i dists), None)"
  using assms
  by (induction dists arbitrary: i) (simp_all add: topic_words_fitted)

text \<open>
  What \<open>topics\<close> yields for a fitted model (every row of the topic-word
  distribution is as long as the vocabulary) and \<open>n_words \<ge> 0\<close>: the vocabulary,
  and for each topic the terms in the order the sorting routine gives, without
  the last \<open>n_words + 1\<close> of them.
\<close>

lemma topics_fitted:
  assumes "is_argsort argsort" and "0 \<le> n_words"
    and "list_all (\<lambda>top_dist. length top_dist = length (terms self)) (topic_word self)"
  shows "topics argsort self n_words =
     (Terms (terms self) #
        map (\<lambda>(i, top_dist). Line (''Topic '' @ str_nat i @ '': '' @ join '' ''
            (take (length (terms self) - (nat n_words + 1))
               (map (\<lambda>j. terms self ! j) (argsort top_dist)))))
          (enumerate 0 (topic_word self)),
      None)"
  using assms by (simp add: topics_def topics_from_fitted topic_line_def)

text \<open>
  Claim C6. With the three terms \<open>a\<close>, \<open>b\<close>, \<open>c\<close> in ascending order of their
  weights, none equal, and \<open>n_words = 1\<close>, whatever the sorting routine does with
  equal values, \<open>topics\<close> yields the line of \<open>a\<close> alone: the slice leaves out the
  two last terms of the ascending order, where leaving out the top term would
  give \<open>a b\<close>, and the term of the greatest weight, \<open>c\<close> at index 2, is not in
  the line.
\<close>

theorem topics_prints_lowest_terms:
  assumes "is_argsort argsort"
  shows "topics argsort \<lparr>terms = [''a'', ''b'', ''c''], documents = [''x''],
            topic_word = [[1 / 10, 2 / 10, 7 / 10]], doc_topic = [[1]]\<rparr> 1
     = ([Terms [''a'', ''b'', ''c''], Line ''Topic 0: a''], None)
   \<and> topics argsort \<lparr>terms = [''a'', ''b'', ''c''], documents = [''x''],
            topic_word = [[1 / 10, 2 / 10, 7 / 10]], doc_topic = [[1]]\<rparr> 1
     \<noteq> ([Terms [''a'', ''b'', ''c''], Line ''Topic 0: a b''], None)
   \<and> argmax [1 / 10, 2 / 10, 7 / 10] = Inr 2"
proof -
  define d :: "rat list" where "d = [1 / 10, 2 / 10, 7 / 10]"
  have "distinct d" by (simp add: d_def)
  then have "argsort d = argsort_stable d"
    by (rule argsort_unique [OF assms])
  also have "\<dots> = [0, 1, 2]"
    unfolding d_def by code_simp
  finally have sorted_indices: "argsort d = [0, 1, 2]" .
  have line: "topics argsort \<lparr>terms = [''a'', ''b'', ''c''], documents = [''x''],
            topic_word = [d], doc_topic = [[1]]\<rparr> 1
     = ([Terms [''a'', ''b'', ''c''], Line ''Topic 0: a''], None)"
    by (simp add: topics_def topic_words_def sorted_indices take_indices_def slice_to_def
        topic_line_def str_nat.simps digit_def)
  have top: "argmax d = Inr 2"
    by (simp add: d_def)
  show ?thesis
    using line top unfolding d_def by simp
qed

theorem topics_prints_lowest_terms_witness:
  "topics argsort_stable \<lparr>terms = [''a'', ''b'', ''c''], documents = [''x''],
            topic_word = [[1 / 10, 2 / 10, 7 / 10]], doc_topic = [[1]]\<rparr> 1
     = ([Terms [''a'', ''b'', ''c''], Line ''Topic 0: a''], None)"
  using topics_prints_lowest_terms [OF is_argsort_stable] by simp

lemma argmax_scan_first_max:
  assumes "length ps = i" and "best_i < i" and "ps ! best_i = best"
    and "\<forall>j<i. ps ! j \<le> best" and "\<forall>j<best_i. ps ! j < best"
  shows "argmax_scan xs i best_i best < length (ps @ xs)
     \<and> (\<forall>j<length (ps @ xs). (ps @ xs) ! j \<le> (ps @ xs) ! argmax_scan xs i best_i best)
     \<and> (\<forall>j<argmax_scan xs i best_i best. (ps @ xs) ! j < (ps @ xs) ! argmax_scan xs i best_i best)"
  using assms
proof (induction xs arbitrary: ps i best_i best)
  case Nil
  then show ?case by simp
next
  case (Cons x xs)
  show ?case
  proof (cases "best < x")
    case True
    have "argmax_scan xs (Suc i) i x < length ((ps @ [x]) @ xs)
     \<and> (\<forall>j<length ((ps @ [x]) @ xs). ((ps @ [x]) @ xs) ! j \<le> ((ps @ [x]) @ xs) ! argmax_scan xs (Suc i) i x)
     \<and> (\<forall>j<argmax_scan xs (Suc i) i x. ((ps @ [x]) @ xs) ! j < ((ps @ [x]) @ xs) ! argmax_scan xs (Suc i) i x)"
    proof (rule Cons.IH)
      show "length (ps @ [x]) = Suc i" using Cons.prems by simp
      show "i < Suc i" by simp
      show "(ps @ [x]) ! i = x" using Cons.prems by (simp add: nth_append)
      show "\<forall>j<Suc i. (ps @ [x]) ! j \<le> x"
        using Cons.prems True by (auto simp: nth_append less_Suc_eq intro: less_imp_le order_trans)
      show "\<forall>j<i. (ps @ [x]) ! j < x"
        using Cons.prems True by (auto simp: nth_append intro: le_less_trans)
    qed
    then show ?thesis using True by simp
  next
    case False
    have "argmax_scan xs (Suc i) best_i best < length ((ps @ [x]) @ xs)
     \<and> (\<forall>j<length ((ps @ [x]) @ xs). ((ps @ [x]) @ xs) ! j \<le> ((ps @ [x]) @ xs) ! argmax_scan xs (Suc i) best_i best)
     \<and> (\<forall>j<argmax_scan xs (Suc i) best_i best. ((ps @ [x]) @ xs) ! j < ((ps @ [x]) @ xs) ! argmax_scan xs (Suc i) best_i best)"
    proof (rule Cons.IH)
      show "length (ps @ [x]) = Suc i" using Cons.prems by simp
      show "best_i < Suc i" using Cons.prems by simp
      show "(ps @ [x]) ! best_i = best" using Cons.prems by (simp add: nth_append)
      show "\<forall>j<Suc i. (ps @ [x]) ! j \<le> best"
        using Cons.prems False by (auto simp: nth_append less_Suc_eq)
      show "\<forall>j<best_i. (ps @ [x]) ! j < best"
        using Cons.prems by (auto simp: nth_append)
    qed
    then show ?thesis using False by simp
  qed
qed

lemma argmax_first_max:
  assumes "argmax row = Inr t"
  shows "t < length row \<and> (\<forall>j<length row. row ! j \<le> row ! t) \<and> (\<forall>j<t. row ! j < row ! t)"
proof (cases row)
  case Nil
  with assms show ?thesis by simp
next
  case (Cons x xs)
  have "argmax_scan xs 1 0 x < length ([x] @ xs)
     \<and> (\<forall>j<length ([x] @ xs). ([x] @ xs) ! j \<le> ([x] @ xs) ! argmax_scan xs 1 0 x)
     \<and> (\<forall>j<argmax_scan xs 1 0 x. ([x] @ xs) ! j < ([x] @ xs) ! argmax_scan xs 1 0 x)"
    by (rule argmax_scan_first_max) simp_all
  with assms Cons show ?thesis by simp
qed

lemma argmax_nonempty: "row \<noteq> [] \<Longrightarrow> \<exists>t. argmax row = Inr t"
  by (cases row) simp_all

lemma print_rows_fitted:
  assumes "list_all (\<lambda>i. i < length (doc_topic self) \<and> doc_topic self ! i \<noteq> []) is"
  shows "\<exists>tops. map (\<lambda>i. argmax (doc_topic self ! i)) is = map Inr tops
     \<and> print_rows self is = (map (\<lambda>(i, t). doc_line (documents self ! i) t) (zip is tops), None)"
  using assms
proof (induction "is")
  case Nil
  then show ?case by simp
next
  case (Cons i rest)
  then obtain tops where tops: "map (\<lambda>i. argmax (doc_topic self ! i)) rest = map Inr tops"
    "print_rows self rest = (map (\<lambda>(i, t). doc_line (documents self ! i) t) (zip rest tops), None)"
    by auto
  from Cons.prems obtain t where t: "argmax (doc_topic self ! i) = Inr t"
    using argmax_nonempty by auto
  have "map (\<lambda>i. argmax (doc_topic self ! i)) (i # rest) = map Inr (t # tops)"
    using t tops by simp
  moreover have "print_rows self (i # rest) =
      (map (\<lambda>(i, t). doc_line (documents self ! i) t) (zip (i # rest) (t # tops)), None)"
    using Cons.prems t tops by simp
  ultimately show ?case by blast
qed

text \<open>
  What \<open>printDocTopic\<close> prints when the document-topic distribution has a row,
  not empty, for each title: line \<open>i\<close> pairs title \<open>i\<close> with the result of
  \<open>argmax\<close> on row \<open>i\<close>, an index of that row whose entry no entry of the row
  exceeds.
\<close>

lemma printDocTopic_pairs_rows:
  assumes "length (documents self) \<le> length (doc_topic self)"
    and "list_all (\<lambda>row. row \<noteq> []) (take (length (documents self)) (doc_topic self))"
  shows "\<exists>tops. length tops = length (documents self)
     \<and> printDocTopic self =
         (map (\<lambda>(title, t). title @ '' (top topic: '' @ str_nat t @ '')'')
            (zip (documents self) tops), None)
     \<and> (\<forall>i<length (documents self).
           argmax (doc_topic self ! i) = Inr (tops ! i)
           \<and> tops ! i < length (doc_topic self ! i)
           \<and> (\<forall>j<length (doc_topic self ! i).
                 doc_topic self ! i ! j \<le> doc_topic self ! i ! (tops ! i)))"
proof -
  let ?n = "length (documents self)"
  have "list_all (\<lambda>i. i < length (doc_topic self) \<and> doc_topic self ! i \<noteq> []) [0..<?n]"
    using assms by (auto simp: list_all_iff in_set_conv_nth)
  from print_rows_fitted [OF this] obtain tops
    where am: "map (\<lambda>i. argmax (doc_topic self ! i)) [0..<?n] = map Inr tops"
      and pr: "print_rows self [0..<?n] =
         (map (\<lambda>(i, t). doc_line (documents self ! i) t) (zip [0..<?n] tops), None)"
    by blast
  have len: "length tops = ?n"
    using am by (metis length_map length_upt diff_zero)
  have each: "argmax (doc_topic self ! i) = Inr (tops ! i)" if "i < ?n" for i
  proof -
    have "map (\<lambda>i. argmax (doc_topic self ! i)) [0..<?n] ! i = map Inr tops ! i"
      using am by simp
    then show ?thesis using that len by simp
  qed
  have lines: "map (\<lambda>(i, t). doc_line (documents self ! i) t) (zip [0..<?n] tops)
      = map (\<lambda>(title, t). title @ '' (top topic: '' @ str_nat t @ '')'') (zip (documents self) tops)"
    using len by (intro nth_equalityI) (simp_all add: doc_line_def)
  show ?thesis
  proof (intro exI conjI allI impI)
    show "length tops = ?n" by (rule len)
    show "printDocTopic self =
         (map (\<lambda>(title, t). title @ '' (top topic: '' @ str_nat t @ '')'')
            (zip (documents self) tops), None)"
      unfolding printDocTopic_def pr lines ..
  next
    fix i assume i: "i < ?n"
    show "argmax (doc_topic self ! i) = Inr (tops ! i)" by (rule each [OF i])
    from argmax_first_max [OF each [OF i]]
    show "tops ! i < length (doc_topic self ! i)" by blast
  next
    fix i j assume i: "i < ?n" and j: "j < length (doc_topic self ! i)"
    from argmax_first_max [OF each [OF i]] j
    show "doc_topic self ! i ! j \<le> doc_topic self ! i ! (tops ! i)" by blast
  qed
qed


lemma nth_replicas:
  "i < n \<Longrightarrow> (replicate n row @ rest) ! i = row"
  by (simp add: nth_append)

text \<open>
  Claim C7. For the corpus of the scenario, \<open>createDocTermMat\<close> returns the two
  titles \<open>a\<close>, \<open>b\<close> and a matrix whose last row alone is the row of \<open>b\<close>. On a
  document-topic distribution with one row for each row of that matrix, where
  the replicas of \<open>a\<close> have topic 0 and the row of \<open>b\<close> has topic 1,
  \<open>printDocTopic\<close> prints topic 0 for \<open>b\<close>: it reads row 1, a replica of \<open>a\<close>.
\<close>

theorem printDocTopic_reads_replica_row:
  "createDocTermMat (power_law (Suc k))
     [\<lparr>get_base_url = ''a'', get_document = [''cat'', ''dog'', ''cat''], get_deg_sep = 1\<rparr>,
      \<lparr>get_base_url = ''b'', get_document = [''dog'', ''bird''], get_deg_sep = 10\<rparr>]
   = Inr (replicate (10 ^ Suc k) [2, 1, 0] @ [[0, 1, 1]],
          [''cat'', ''dog'', ''bird''], [''a'', ''b''])
   \<and> printDocTopic \<lparr>terms = [''cat'', ''dog'', ''bird''], documents = [''a'', ''b''],
        topic_word = tw,
        doc_topic = replicate (10 ^ Suc k) [9 / 10, 1 / 10] @ [[1 / 10, 9 / 10]]\<rparr>
     = ([''a (top topic: 0)'', ''b (top topic: 0)''], None)
   \<and> argmax [1 / 10, 9 / 10] = Inr 1"
proof -
  define n :: nat where "n = 10 ^ Suc k"
  have "0 < (10::nat) ^ k" by simp
  then have "1 < (10::nat) * 10 ^ k" by linarith
  then have n: "1 < n" "0 < n"
    by (simp_all add: n_def)
  define a_row :: "rat list" where "a_row = [9 / 10, 1 / 10]"
  let ?m = "\<lparr>terms = [''cat'', ''dog'', ''bird''], documents = [''a'', ''b''],
        topic_word = tw, doc_topic = replicate n a_row @ [[1 / 10, 9 / 10]]\<rparr>"
  have r0: "(replicate n a_row @ [[1 / 10, 9 / 10]]) ! 0 = a_row"
    and r1: "(replicate n a_row @ [[1 / 10, 9 / 10]]) ! Suc 0 = a_row"
    using n by (simp_all add: nth_replicas)
  have top_a: "argmax a_row = Inr 0"
    by (simp add: a_row_def)
  have "printDocTopic ?m = ([''a (top topic: 0)'', ''b (top topic: 0)''], None)"
    using n by (simp add: printDocTopic_def r0 r1 top_a doc_line_def str_nat.simps digit_def)
  then show ?thesis
    unfolding n_def a_row_def by (simp add: createDocTermMat_scenario)
qed

section \<open>Properties of the corpus loader\<close>

lemma split_run_nonempty: "w \<in> set (split_run sep cur s) \<Longrightarrow> w \<noteq> []"
  by (induction s arbitrary: cur) (auto split: if_splits)

lemma split_run_no_separator:
  "\<forall>c\<in>set cur. \<not> sep c \<Longrightarrow> w \<in> set (split_run sep cur s) \<Longrightarrow> c \<in> set w \<Longrightarrow> \<not> sep c"
proof (induction s arbitrary: cur)
  case Nil
  then show ?case by (auto split: if_splits)
next
  case (Cons a s)
  show ?case
  proof (cases "sep a")
    case True
    with Cons.prems have "w = cur \<or> w \<in> set (split_run sep [] s)"
      by (auto split: if_splits)
    then show ?thesis
    proof
      assume "w = cur"
      with Cons.prems show ?thesis by simp
    next
      assume "w \<in> set (split_run sep [] s)"
      with Cons.IH [of "[]"] Cons.prems(3) show ?thesis by simp
    qed
  next
    case False
    with Cons.prems have "w \<in> set (split_run sep (cur @ [a]) s)" by simp
    moreover have "\<forall>c\<in>set (cur @ [a]). \<not> sep c" using Cons.prems(1) False by simp
    ultimately show ?thesis using Cons.IH [of "cur @ [a]"] Cons.prems(3) by blast
  qed
qed

lemma concat_split_run: "concat (split_run sep cur s) = cur @ filter (\<lambda>c. \<not> sep c) s"
  by (induction s arbitrary: cur) auto

text \<open>
  Claim C8. \<open>filter_words\<close> raises an \<open>AssertionError\<close> exactly when its
  argument is not a string, and the message then names the type of the argument;
  on a string it returns the whitespace split: words that are not empty and hold
  no whitespace, which together are the characters of the string that are not
  whitespace, in order.
\<close>

theorem filter_words_string_only:
  "((\<exists>msg. filter_words document = Inl (AssertionError msg)) \<longleftrightarrow> (\<forall>s. document \<noteq> PyStr s))
   \<and> ((\<forall>s. document \<noteq> PyStr s) \<longrightarrow>
        filter_words document = Inl (AssertionError (''Current type: '' @ type_repr document
          @ ''. Document needs to be a string or an unicode for stopwords to work'')))
   \<and> filter_words (PyStr s) = Inr (split s)
   \<and> (\<forall>w\<in>set (split s). w \<noteq> [] \<and> (\<forall>c\<in>set w. \<not> isspace c))
   \<and> concat (split s) = filter (\<lambda>c. \<not> isspace c) s"
proof (intro conjI)
  show "(\<exists>msg. filter_words document = Inl (AssertionError msg)) \<longleftrightarrow> (\<forall>s. document \<noteq> PyStr s)"
    by (cases document) simp_all
  show "(\<forall>s. document \<noteq> PyStr s) \<longrightarrow>
        filter_words document = Inl (AssertionError (''Current type: '' @ type_repr document
          @ ''. Document needs to be a string or an unicode for stopwords to work''))"
    by (cases document) simp_all
  show "filter_words (PyStr s) = Inr (split s)" by simp
  show "\<forall>w\<in>set (split s). w \<noteq> [] \<and> (\<forall>c\<in>set w. \<not> isspace c)"
    unfolding split_def
    using split_run_nonempty [of _ isspace "[]" s] split_run_no_separator [of "[]" isspace _ s]
    by auto
  show "concat (split s) = filter (\<lambda>c. \<not> isspace c) s"
    by (simp add: split_def concat_split_run)
qed

theorem filter_words_string_only_witness:
  "filter_words (PyInt 3) = Inl (AssertionError
      ''Current type: <class 'int'>. Document needs to be a string or an unicode for stopwords to work'')
   \<and> filter_words (PyStr '' cat  dog bird '') = Inr [''cat'', ''dog'', ''bird'']
   \<and> filter_words (PyStr (''cat'' @ [CHR 0xA0] @ ''dog'')) = Inr [''cat'', ''dog'']"
  using filter_words_string_only [of "PyInt 3" "'' cat  dog bird ''"]
  by (simp add: split_def isspace_def)

lemma fold_max_degree:
  "fold (\<lambda>r d. max d (rec_deg_sep r)) rs d = Max (insert d (rec_deg_sep ` set rs))"
proof (induction rs arbitrary: d)
  case Nil
  then show ?case by simp
next
  case (Cons r rs)
  have "Max (insert (max d (rec_deg_sep r)) (rec_deg_sep ` set rs))
      = Max (insert d (insert (rec_deg_sep r) (rec_deg_sep ` set rs)))"
  proof (cases "rs = []")
    case True
    then show ?thesis by (simp add: max.commute)
  next
    case False
    then show ?thesis by (simp add: max.assoc)
  qed
  then show ?case using Cons.IH [of "max d (rec_deg_sep r)"] by simp
qed

lemma Max_degree_records:
  assumes "rs \<noteq> []" and "\<forall>r\<in>set rs. d0 \<le> rec_deg_sep r"
  shows "Max (insert d0 (rec_deg_sep ` set rs)) = Max (rec_deg_sep ` set rs)"
proof -
  from assms obtain r where r: "r \<in> set rs" by (cases rs) auto
  then have "d0 \<le> rec_deg_sep r" and "rec_deg_sep r \<le> Max (rec_deg_sep ` set rs)"
    using assms by simp_all
  then have "d0 \<le> Max (rec_deg_sep ` set rs)" by linarith
  moreover have "rec_deg_sep ` set rs \<noteq> {}" using assms by simp
  ultimately show ?thesis by (simp add: max_def)
qed

lemma fold_records_strings:
  assumes "\<forall>r\<in>set rs. \<exists>s. rec_text r = PyStr s"
  shows "\<exists>wss. map (\<lambda>r. filter_words (rec_text r)) rs = map Inr wss
     \<and> fold_records rs doc =
         Inr (doc\<lparr>get_document := get_document doc @ concat wss,
                  get_deg_sep := fold (\<lambda>r d. max d (rec_deg_sep r)) rs (get_deg_sep doc)\<rparr>)"
  using assms
proof (induction rs arbitrary: doc)
  case Nil
  then show ?case by simp
next
  case (Cons r rs)
  then obtain s where s: "rec_text r = PyStr s" by auto
  let ?doc = "update_degree (rec_deg_sep r) (add_words (split s) doc)"
  from Cons.IH [of ?doc] Cons.prems obtain wss
    where wss: "map (\<lambda>r. filter_words (rec_text r)) rs = map Inr wss"
      and rest: "fold_records rs ?doc =
         Inr (?doc\<lparr>get_document := get_document ?doc @ concat wss,
                  get_deg_sep := fold (\<lambda>r d. max d (rec_deg_sep r)) rs (get_deg_sep ?doc)\<rparr>)"
    by auto
  have "map (\<lambda>r. filter_words (rec_text r)) (r # rs) = map Inr (split s # wss)"
    using s wss by simp
  moreover have "fold_records (r # rs) doc =
         Inr (doc\<lparr>get_document := get_document doc @ concat (split s # wss),
                  get_deg_sep := fold (\<lambda>r d. max d (rec_deg_sep r)) (r # rs) (get_deg_sep doc)\<rparr>)"
    using s rest by (simp add: update_degree_def add_words_def)
  ultimately show ?case by blast
qed

lemma corpus_of_documents:
  assumes "\<forall>r\<in>set text_collection. (\<exists>s. rec_text r = PyStr s) \<and> d0 \<le> rec_deg_sep r"
    and "set urls \<subseteq> rec_base_url ` set text_collection"
  shows "\<exists>corpus. corpus_of d0 text_collection urls = Inr corpus
     \<and> map get_base_url corpus = urls
     \<and> (\<forall>doc\<in>set corpus.
          (\<exists>wss. map (\<lambda>r. filter_words (rec_text r))
                    (find_base_url text_collection (get_base_url doc)) = map Inr wss
                 \<and> get_document doc = concat wss)
          \<and> get_deg_sep doc =
              Max (rec_deg_sep ` set (find_base_url text_collection (get_base_url doc))))"
  using assms(2)
proof (induction urls)
  case Nil
  then show ?case by simp
next
  case (Cons url urls)
  let ?rs = "find_base_url text_collection url"
  have strings: "\<forall>r\<in>set ?rs. \<exists>s. rec_text r = PyStr s"
    and degrees: "\<forall>r\<in>set ?rs. d0 \<le> rec_deg_sep r"
    using assms(1) by (simp_all add: find_base_url_def)
  have nonempty: "?rs \<noteq> []"
    using Cons.prems by (auto simp: find_base_url_def filter_empty_conv)
  from fold_records_strings [OF strings, of "DocumentItem d0 url"] obtain wss
    where wss: "map (\<lambda>r. filter_words (rec_text r)) ?rs = map Inr wss"
      and doc: "fold_records ?rs (DocumentItem d0 url) =
         Inr ((DocumentItem d0 url)\<lparr>get_document := get_document (DocumentItem d0 url) @ concat wss,
                  get_deg_sep := fold (\<lambda>r d. max d (rec_deg_sep r)) ?rs (get_deg_sep (DocumentItem d0 url))\<rparr>)"
    by blast
  define item where "item = \<lparr>get_base_url = url, get_document = concat wss,
      get_deg_sep = Max (rec_deg_sep ` set ?rs)\<rparr>"
  have item: "fold_records ?rs (DocumentItem d0 url) = Inr item"
    unfolding doc item_def
    by (simp add: DocumentItem_def fold_max_degree Max_degree_records [OF nonempty degrees])
  from Cons.IH Cons.prems obtain corpus
    where corpus: "corpus_of d0 text_collection urls = Inr corpus"
      and urls: "map get_base_url corpus = urls"
      and docs: "\<forall>doc\<in>set corpus.
          (\<exists>wss. map (\<lambda>r. filter_words (rec_text r))
                    (find_base_url text_collection (get_base_url doc)) = map Inr wss
                 \<and> get_document doc = concat wss)
          \<and> get_deg_sep doc =
              Max (rec_deg_sep ` set (find_base_url text_collection (get_base_url doc)))"
    by auto
  have c1: "corpus_of d0 text_collection (url # urls) = Inr (item # corpus)"
    using item corpus by simp
  have c2: "map get_base_url (item # corpus) = url # urls"
    using urls by (simp add: item_def)
  have c3: "\<forall>doc\<in>set (item # corpus).
          (\<exists>wss. map (\<lambda>r. filter_words (rec_text r))
                    (find_base_url text_collection (get_base_url doc)) = map Inr wss
                 \<and> get_document doc = concat wss)
          \<and> get_deg_sep doc =
              Max (rec_deg_sep ` set (find_base_url text_collection (get_base_url doc)))"
    using docs wss by (auto simp: item_def)
  show ?case
    by (intro exI [of _ "item # corpus"] conjI c1 c2 c3)
qed

lemma set_distinct_base_urls:
  "set (distinct_base_urls text_collection) = rec_base_url ` set text_collection"
  by (simp add: distinct_base_urls_def)

lemma distinct_distinct_base_urls: "distinct (distinct_base_urls text_collection)"
  by (simp add: distinct_base_urls_def)

text \<open>
  Claim C9. When the text of every record is a string, and no record reports a
  degree of separation below the one a new document starts with, \<open>get_corpus\<close>
  returns one document for each base identifier of the collection, no identifier
  twice; the words of a document are the filtered word lists of the records with
  its identifier, in their order, and its degree of separation is the greatest
  one among those records.
\<close>

theorem get_corpus_one_document_per_base_url:
  assumes "\<forall>r\<in>set text_collection. (\<exists>s. rec_text r = PyStr s) \<and> d0 \<le> rec_deg_sep r"
  shows "\<exists>corpus. get_corpus d0 text_collection = Inr corpus
     \<and> distinct (map get_base_url corpus)
     \<and> set (map get_base_url corpus) = rec_base_url ` set text_collection
     \<and> (\<forall>doc\<in>set corpus.
          (\<exists>wss. map (\<lambda>r. filter_words (rec_text r))
                    (find_base_url text_collection (get_base_url doc)) = map Inr wss
                 \<and> get_document doc = concat wss)
          \<and> get_deg_sep doc =
              Max (rec_deg_sep ` set (find_base_url text_collection (get_base_url doc))))"
proof -
  have "set (distinct_base_urls text_collection) \<subseteq> rec_base_url ` set text_collection"
    by (simp add: set_distinct_base_urls)
  from corpus_of_documents [OF assms this] obtain corpus
    where "corpus_of d0 text_collection (distinct_base_urls text_collection) = Inr corpus"
      and "map get_base_url corpus = distinct_base_urls text_collection"
      and "\<forall>doc\<in>set corpus.
          (\<exists>wss. map (\<lambda>r. filter_words (rec_text r))
                    (find_base_url text_collection (get_base_url doc)) = map Inr wss
                 \<and> get_document doc = concat wss)
          \<and> get_deg_sep doc =
              Max (rec_deg_sep ` set (find_base_url text_collection (get_base_url doc)))"
    by blast
  then show ?thesis
    using set_distinct_base_urls [of text_collection] distinct_distinct_base_urls [of text_collection]
    by (auto simp: get_corpus_def simp del: set_map)
qed

theorem get_corpus_one_document_per_base_url_witness:
  "get_corpus 1
     [\<lparr>rec_base_url = ''a'', rec_text = PyStr ''cat dog'', rec_deg_sep = 2\<rparr>,
      \<lparr>rec_base_url = ''b'', rec_text = PyStr ''dog bird'', rec_deg_sep = 3\<rparr>,
      \<lparr>rec_base_url = ''a'', rec_text = PyStr ''bird'', rec_deg_sep = 5\<rparr>]
   = Inr [\<lparr>get_base_url = ''a'', get_document = [''cat'', ''dog'', ''bird''], get_deg_sep = 5\<rparr>,
          \<lparr>get_base_url = ''b'', get_document = [''dog'', ''bird''], get_deg_sep = 3\<rparr>]
   \<and> distinct (map get_base_url
         [\<lparr>get_base_url = ''a'', get_document = [''cat'', ''dog'', ''bird''], get_deg_sep = 5\<rparr>,
          \<lparr>get_base_url = ''b'', get_document = [''dog'', ''bird''], get_deg_sep = 3\<rparr>])"
proof -
  let ?store = "[\<lparr>rec_base_url = ''a'', rec_text = PyStr ''cat dog'', rec_deg_sep = 2\<rparr>,
      \<lparr>rec_base_url = ''b'', rec_text = PyStr ''dog bird'', rec_deg_sep = 3\<rparr>,
      \<lparr>rec_base_url = ''a'', rec_text = PyStr ''bird'', rec_deg_sep = 5\<rparr>]"
  have h: "\<forall>r\<in>set ?store. (\<exists>s. rec_text r = PyStr s) \<and> 1 \<le> rec_deg_sep r"
    by simp
  have ev: "get_corpus 1 ?store
     = Inr [\<lparr>get_base_url = ''a'', get_document = [''cat'', ''dog'', ''bird''], get_deg_sep = 5\<rparr>,
          \<lparr>get_base_url = ''b'', get_document = [''dog'', ''bird''], get_deg_sep = 3\<rparr>]"
    by (simp add: get_corpus_def distinct_base_urls_def find_base_url_def DocumentItem_def
        add_words_def update_degree_def split_def isspace_def)
  from get_corpus_one_document_per_base_url [OF h] obtain corpus
    where "get_corpus 1 ?store = Inr corpus" and "distinct (map get_base_url corpus)"
    by blast
  with ev show ?thesis by simp
qed

end
